theory Spec2Isabelle
  imports Main
begin

unbundle bit_operations_syntax

section \<open>Python values\<close>

text \<open>
  Python integers are unbounded, so they are \<^typ>\<open>int\<close>. The operators \<open>//\<close> and
  \<open>%\<close> round towards minus infinity, as \<open>div\<close> and \<open>mod\<close> on \<^typ>\<open>int\<close> do for a
  positive divisor. Every exception the modelled code can raise is a value of \<open>py_error\<close>.
\<close>

datatype py_error = ZeroDivisionError | IndexError | KeyError | TypeError | ValueError
  | OverflowError | JSONDecodeError

section \<open>Number-theoretic filters\<close>

subsection \<open>ParkerThreeSquareCheck\<close>

text \<open>
  The loop \<^verbatim>\<open>while number % 4 == 0: number //= 4\<close> of \<^verbatim>\<open>ParkerThreeSquareCheck\<close>
  (the same text in both source files). The source has no guard on it, so it is a partial
  function: \<open>None\<close> is "the loop never ends".
\<close>

partial_function (option) strip_fours :: "int \<Rightarrow> int option" where
  "strip_fours number =
     (if number mod 4 = 0 then strip_fours (number div 4) else Some number)"

definition ParkerThreeSquareCheck :: "int \<Rightarrow> bool option" where
  "ParkerThreeSquareCheck number =
     (case strip_fours number of
        None \<Rightarrow> None
      | Some reduced \<Rightarrow> Some (reduced mod 8 \<noteq> 7))"


subsection \<open>ParkerIntegerSqrt\<close>

text \<open>
  \<^verbatim>\<open>ParkerIntegerSqrt\<close> of \<^verbatim>\<open>parkersquare2.py\<close>. Its loop
  \<^verbatim>\<open>while True: y = (x + n // x) // 2; if abs(x - y) < 2: break; x = y\<close>
  divides by \<open>x\<close> without a test, so the division by zero is a branch of the model.
  The outer \<open>option\<close> is "the loop never ends", the sum is a raised exception, and the
  inner \<open>option\<close> is Python's \<open>None\<close> (not a perfect square).
\<close>

partial_function (option) newton_loop :: "int \<Rightarrow> int \<Rightarrow> (py_error + int) option" where
  "newton_loop n x =
     (if x = 0 then Some (Inl ZeroDivisionError)
      else let y = (x + n div x) div 2
           in if \<bar>x - y\<bar> < 2 then Some (Inr x) else newton_loop n y)"

definition ParkerIntegerSqrt :: "int \<Rightarrow> (py_error + int option) option" where
  "ParkerIntegerSqrt n =
     (if n = 0 then Some (Inr (Some 0))
      else case newton_loop n (n div 2) of
             None \<Rightarrow> None
           | Some (Inl e) \<Rightarrow> Some (Inl e)
           | Some (Inr x) \<Rightarrow>
               Some (Inr (if x * x = n then Some x
                          else if (x - 1) * (x - 1) = n then Some (x - 1)
                          else if (x + 1) * (x + 1) = n then Some (x + 1)
                          else None)))"

subsection \<open>ParkerIsSquare\<close>

text \<open>
  The reduction \<^verbatim>\<open>while n&3 == 0: n=n>>2\<close>, written with the bit operations of the
  source.
\<close>

partial_function (option) reduce_fours :: "int \<Rightarrow> int option" where
  "reduce_fours n = (if n AND 3 = 0 then reduce_fours (drop_bit 2 n) else Some n)"

text \<open>\<^verbatim>\<open>len(str(n))\<close>: the number of characters of the decimal numeral, sign included.\<close>

function decimal_length :: "int \<Rightarrow> nat" where
  "decimal_length n =
     (if n < 0 then Suc (decimal_length (- n))
      else if n < 10 then 1
      else Suc (decimal_length (n div 10)))"
  by pat_completeness auto
termination
  by (relation "measure (\<lambda>n. nat (2 * \<bar>n\<bar> + (if n < 0 then 1 else 0)))") auto

declare decimal_length.simps [simp del]

text \<open>
  The root extraction
  \<^verbatim>\<open>a = {x, n}; while x * x != n: x = (x + (n // x)) >> 1; if x in a: return False; a.add(x)\<close>
  with the set \<open>a\<close> of the values seen so far.
\<close>

partial_function (option) babylonian ::
    "int \<Rightarrow> int \<Rightarrow> int set \<Rightarrow> (py_error + bool) option" where
  "babylonian n x a =
     (if x * x \<noteq> n then
        (if x = 0 then Some (Inl ZeroDivisionError)
         else let x' = drop_bit 1 (x + n div x)
              in if x' \<in> a then Some (Inr False) else babylonian n x' (insert x' a))
      else Some (Inr True))"

text \<open>
  The block under \<^verbatim>\<open>## Other patterns\<close>: \<open>False\<close> where the source returns False,
  \<open>True\<close> where it falls through to the root extraction.
\<close>

definition other_patterns :: "int \<Rightarrow> int \<Rightarrow> bool" where
  "other_patterns c n =
     (if c = 5 then
        (if (n div 10) mod 10 \<noteq> 2 then False
         else if (n div 100) mod 10 \<notin> {0, 2, 6} then False
         else if (n div 100) mod 10 = 6 \<and> (n div 1000) mod 10 \<notin> {0, 5} then False
         else True)
      else (if (n div 10) mod 4 \<noteq> 0 then False else True))"

definition ParkerIsSquare :: "int \<Rightarrow> (py_error + bool) option" where
  "ParkerIsSquare n0 =
     (if n0 < 0 then Some (Inr False)
      else if n0 = 0 then Some (Inr True)
      else case reduce_fours n0 of
        None \<Rightarrow> None
      | Some n \<Rightarrow>
          if n AND 7 \<noteq> 1 then Some (Inr False)
          else if n = 1 then Some (Inr True)
          else let c = n mod 10 in
            if c \<in> {3, 7} then Some (Inr False)
            else if n mod 7 \<in> {3, 5, 6} then Some (Inr False)
            else if n mod 9 \<in> {2, 3, 5, 6, 8} then Some (Inr False)
            else if n mod 13 \<in> {2, 5, 6, 7, 8, 11} then Some (Inr False)
            else if \<not> other_patterns c n then Some (Inr False)
            else let s = (int (decimal_length n) - 1) div 2;
                     x = 10 ^ nat s * 4
                 in babylonian n x {x, n})"

section \<open>Value table, search engine and checkpoint of parkersquare.py\<close>

definition and_then :: "'e + 'a \<Rightarrow> ('a \<Rightarrow> 'e + 'b) \<Rightarrow> 'e + 'b" where
  "and_then m f = (case m of Inl e \<Rightarrow> Inl e | Inr x \<Rightarrow> f x)"

definition py_index :: "'a list \<Rightarrow> int \<Rightarrow> nat option" where
  "py_index xs i =
     (let n = int (length xs); j = (if i < 0 then n + i else i)
      in if 0 \<le> j \<and> j < n then Some (nat j) else None)"

definition py_get :: "'a list \<Rightarrow> int \<Rightarrow> py_error + 'a" where
  "py_get xs i = (case py_index xs i of None \<Rightarrow> Inl IndexError | Some j \<Rightarrow> Inr (xs ! j))"

definition py_set :: "'a list \<Rightarrow> int \<Rightarrow> 'a \<Rightarrow> py_error + 'a list" where
  "py_set xs i v = (case py_index xs i of None \<Rightarrow> Inl IndexError | Some j \<Rightarrow> Inr (xs[j := v]))"

function bit_length :: "int \<Rightarrow> nat" where
  "bit_length m = (if m \<le> 0 then 0 else Suc (bit_length (m div 2)))"
  by pat_completeness auto
termination
  by (relation "measure nat") auto

declare bit_length.simps [simp del]

definition float_of_int :: "int \<Rightarrow> py_error + int" where
  "float_of_int b =
     (let m = \<bar>b\<bar>; e = int (bit_length m) - 53
      in if e \<le> 0 then Inr b
         else let q = m div 2 ^ nat e;
                  r = m mod 2 ^ nat e;
                  half = 2 ^ nat (e - 1);
                  q' = (if half < r \<or> (r = half \<and> odd q) then q + 1 else q);
                  v = q' * 2 ^ nat e
              in if 2 ^ 1024 \<le> v then Inl OverflowError else Inr (sgn b * v))"

definition int_root :: "(int \<Rightarrow> nat \<Rightarrow> int) \<Rightarrow> int \<Rightarrow> nat \<Rightarrow> py_error + int" where
  "int_root libm_root b p =
     (if p = 0 then Inl ZeroDivisionError
      else if p = 1 then float_of_int b
      else if b < 0 then Inl TypeError
      else Inr (libm_root b p))"

definition fill_table :: "nat \<Rightarrow> int \<Rightarrow> int list \<times> (int \<rightharpoonup> int)" where
  "fill_table pw arrSize =
     foldl (\<lambda>(numbers, vals) iCnt.
              (numbers[nat iCnt := iCnt ^ pw], vals(iCnt ^ pw \<mapsto> iCnt)))
           (replicate (nat (arrSize + 1)) 0, Map.empty) [0..arrSize]"

record plan_step =
  field :: int
  calc :: "(int \<times> int) option"
  start :: "int list option"

definition step :: "int \<Rightarrow> (int \<times> int) option \<Rightarrow> int list option \<Rightarrow> plan_step option" where
  "step f c s = Some \<lparr>field = f, calc = c, start = s\<rparr>"

definition brute_plan :: "plan_step option list" where
  "brute_plan =
     [None,
      step 1 None None,
      step 3 None None,
      step 2 (Some (1, 3)) None,
      step 5 None None,
      step 7 (Some (3, 5)) None,
      step 4 (Some (1, 7)) None,
      step 6 (Some (4, 5)) None,
      step 8 (Some (2, 5)) None,
      step 9 (Some (3, 6)) None]"


definition power1_plan :: "plan_step option list" where
  "power1_plan =
     [None,
      step 5 None None,
      step 1 None None,
      step 9 (Some (1, 5)) None,
      step 3 None (Some [1]),
      step 2 (Some (1, 3)) None,
      step 6 (Some (3, 9)) None,
      step 4 (Some (5, 6)) None,
      step 8 (Some (2, 5)) None,
      step 7 (Some (1, 4)) None]"

definition general_plan :: "plan_step option list" where
  "general_plan =
     [None,
      step 1 None None,
      step 3 None (Some [1]),
      step 2 (Some (1, 3)) None,
      step 5 None (Some [3]),
      step 7 (Some (3, 5)) None,
      step 4 (Some (1, 7)) None,
      step 6 (Some (4, 5)) None,
      step 8 (Some (2, 5)) None,
      step 9 (Some (3, 6)) None]"

text \<open>
  The state file as \<^verbatim>\<open>_parkerStateRead\<close> meets it: not there, not valid JSON, or a JSON
  object. Of an object only the two keys that are read matter: \<open>Parsed c m\<close> is an object
  whose key \<^verbatim>\<open>glbCntSearch\<close> is absent (\<open>c = None\<close>) or holds the integer \<open>c\<close>, and
  whose key \<^verbatim>\<open>glbMatrix\<close> is absent (\<open>m = None\<close>) or holds the list of integers \<open>m\<close>.
  Files that hold other JSON values under these keys, or a JSON value that is not an
  object, are outside the model: the engine state below is typed.
\<close>

datatype state_file = Missing | Unparsable | Parsed "int option" "int list option"

datatype printout =
  Printout (at_cursor: int) (shown_matrix: "int list") (line_totals: "int list") (verdict: bool)

record engine =
  glbMagicNumber :: int
  glbPower :: nat
  glbBruteForce :: bool
  glbArrSize :: int
  glbArrNumbers :: "int list"
  glbArrValues :: "int \<rightharpoonup> int"
  glbSearchArr :: "plan_step option list"
  glbMatrix :: "int list"
  glbCntSearch :: int
  glbStateFile :: "string option"
  maxSearch :: int
  checkSearch :: int
  found :: bool
  iteration :: int
  printed :: "printout list"
  disk :: state_file

definition glbMatrixSize :: int where
  "glbMatrixSize = 9"

record config =
  inMagicNumber :: int
  cfg_power :: nat
  cfg_bruteforce :: bool
  cfg_state :: bool
  libm_root :: "int \<Rightarrow> nat \<Rightarrow> int"
  on_disk :: state_file

definition parkerInit :: "config \<Rightarrow> py_error + engine" where
  "parkerInit cfg =
     and_then (int_root (libm_root cfg) (inMagicNumber cfg - 1 - 2 ^ cfg_power cfg) (cfg_power cfg))
       (\<lambda>arrSize.
          let (numbers, vals) = fill_table (cfg_power cfg) arrSize
          in Inr \<lparr>glbMagicNumber = inMagicNumber cfg,
                  glbPower = cfg_power cfg,
                  glbBruteForce = cfg_bruteforce cfg,
                  glbArrSize = arrSize,
                  glbArrNumbers = numbers,
                  glbArrValues = vals,
                  glbSearchArr =
                    (if cfg_bruteforce cfg then brute_plan
                     else if cfg_power cfg = 1 then power1_plan
                     else general_plan),
                  glbMatrix = replicate (nat (glbMatrixSize + 1)) 0,
                  glbCntSearch = 0,
                  glbStateFile =
                    (if cfg_state cfg then Some ''state_<magic>.txt'' else None),
                  maxSearch = 0,
                  checkSearch = 0,
                  found = False,
                  iteration = 0,
                  printed = [],
                  disk = on_disk cfg\<rparr>)"

definition all_lines :: "(int \<times> int \<times> int) list" where
  "all_lines =
     [(1, 2, 3), (4, 5, 6), (7, 8, 9),
      (1, 4, 7), (2, 5, 8), (3, 6, 9),
      (1, 5, 9), (3, 5, 7)]"

definition cell :: "int list \<Rightarrow> int list \<Rightarrow> int \<Rightarrow> py_error + int" where
  "cell numbers matrix i = and_then (py_get matrix i) (py_get numbers)"

definition line_sum :: "int list \<Rightarrow> int list \<Rightarrow> int \<times> int \<times> int \<Rightarrow> py_error + int" where
  "line_sum numbers matrix l =
     (case l of (a, b, c) \<Rightarrow>
        and_then (cell numbers matrix a) (\<lambda>x.
        and_then (cell numbers matrix b) (\<lambda>y.
        and_then (cell numbers matrix c) (\<lambda>z. Inr (x + y + z)))))"

fun line_sums :: "int list \<Rightarrow> int list \<Rightarrow> (int \<times> int \<times> int) list \<Rightarrow> py_error + int list" where
  "line_sums numbers matrix [] = Inr []"
| "line_sums numbers matrix (l # ls) =
     and_then (line_sum numbers matrix l) (\<lambda>v.
     and_then (line_sums numbers matrix ls) (\<lambda>vs. Inr (v # vs)))"

definition parkerPrintMatrix :: "engine \<Rightarrow> py_error + bool \<times> engine" where
  "parkerPrintMatrix s =
     and_then (line_sums (glbArrNumbers s) (glbMatrix s) all_lines) (\<lambda>vs.
       let result = list_all (\<lambda>v. v = glbMagicNumber s) vs
       in if result \<or> 1 < glbPower s then
            (if glbMagicNumber s \<le> 0 then Inl ValueError
             else Inr (result,
                       s\<lparr>printed := printed s
                            @ [Printout (glbCntSearch s) (glbMatrix s) vs result]\<rparr>))
          else Inr (result, s))"

definition parkerStateSave :: "engine \<Rightarrow> engine" where
  "parkerStateSave s =
     (case glbStateFile s of
        None \<Rightarrow> s
      | Some _ \<Rightarrow>
          s\<lparr>disk := Parsed (Some (glbCntSearch s)) (Some (glbMatrix s))\<rparr>)"

definition parkerStateRead :: "engine \<Rightarrow> py_error + engine" where
  "parkerStateRead s =
     (case glbStateFile s of
        None \<Rightarrow> Inr s
      | Some _ \<Rightarrow>
          (case disk s of
             Missing \<Rightarrow> Inr s
           | Unparsable \<Rightarrow> Inl JSONDecodeError
           | Parsed cursor grid \<Rightarrow>
               (case cursor of
                  None \<Rightarrow> Inr s
                | Some cnt \<Rightarrow>
                    (case grid of
                       None \<Rightarrow> Inl KeyError
                     | Some matrix \<Rightarrow>
                         Inr (s\<lparr>glbCntSearch := cnt, glbMatrix := matrix\<rparr>)))))"

fun start_value :: "int list \<Rightarrow> int list \<Rightarrow> int \<Rightarrow> py_error + int" where
  "start_value matrix [] newValue = Inr newValue"
| "start_value matrix (iVal # rest) newValue =
     and_then (py_get matrix iVal) (\<lambda>v. start_value matrix rest (max newValue v))"

function next_free :: "int list \<Rightarrow> int \<Rightarrow> int" where
  "next_free matrix newValue =
     (if newValue \<in> set matrix then next_free matrix (newValue + 1) else newValue)"
  by pat_completeness auto
termination
proof (relation "measure (\<lambda>(matrix, newValue). nat (Max (set matrix) + 1 - newValue))")
  show "wf (measure (\<lambda>(matrix, newValue). nat (Max (set matrix) + 1 - newValue)))"
    by simp
next
  fix matrix :: "int list" and newValue :: int
  assume "newValue \<in> set matrix"
  then have "newValue \<le> Max (set matrix)"
    by simp
  then show "((matrix, newValue + 1), (matrix, newValue))
             \<in> measure (\<lambda>(matrix, newValue). nat (Max (set matrix) + 1 - newValue))"
    by simp
qed

declare next_free.simps [simp del]

definition iterate_field :: "engine \<Rightarrow> int \<Rightarrow> int list option \<Rightarrow> py_error + engine" where
  "iterate_field s currField currStart =
     and_then (py_get (glbMatrix s) currField) (\<lambda>cur.
     and_then
       (if cur = 0 then
          (case currStart of
             None \<Rightarrow> Inr (glbMatrix s)
           | Some currFields \<Rightarrow>
               and_then (start_value (glbMatrix s) currFields 0)
                 (\<lambda>newValue. py_set (glbMatrix s) currField newValue))
        else Inr (glbMatrix s)) (\<lambda>m1.
     and_then (py_get m1 currField) (\<lambda>cur1.
       let newValue = next_free m1 (cur1 + 1)
       in and_then (py_set m1 currField newValue) (\<lambda>m2.
            if maxSearch s < newValue then
              and_then (py_set m2 currField 0) (\<lambda>m3.
                Inr (s\<lparr>glbMatrix := m3, glbCntSearch := glbCntSearch s - 1\<rparr>))
            else Inr (s\<lparr>glbMatrix := m2, glbCntSearch := glbCntSearch s + 1\<rparr>)))))"

definition calc_field :: "engine \<Rightarrow> int \<Rightarrow> int \<times> int \<Rightarrow> py_error + bool \<times> engine" where
  "calc_field s currField currCalc =
     and_then (py_get (glbMatrix s) (fst currCalc)) (\<lambda>fldPos1.
     and_then (py_get (glbMatrix s) (snd currCalc)) (\<lambda>fldPos2.
     and_then (py_get (glbArrNumbers s) fldPos1) (\<lambda>v1.
     and_then (py_get (glbArrNumbers s) fldPos2) (\<lambda>v2.
       let fldValue = glbMagicNumber s - v1 - v2
       in if fldValue \<le> 0 then Inr (False, s\<lparr>glbCntSearch := glbCntSearch s - 1\<rparr>)
          else (case glbArrValues s fldValue of
                  None \<Rightarrow> Inr (False, s\<lparr>glbCntSearch := glbCntSearch s - 1\<rparr>)
                | Some idx \<Rightarrow>
                    if idx \<in> set (glbMatrix s) then
                      Inr (False, s\<lparr>glbCntSearch := glbCntSearch s - 1\<rparr>)
                    else and_then (py_set (glbMatrix s) currField idx) (\<lambda>m.
                           Inr (True, s\<lparr>glbMatrix := m,
                                          glbCntSearch := glbCntSearch s + 1\<rparr>)))))))"

definition after_fill :: "engine \<Rightarrow> py_error + engine" where
  "after_fill s =
     (if glbMatrixSize < glbCntSearch s then
        and_then (parkerPrintMatrix s) (\<lambda>(ok, s').
          if \<not> ok then Inr (s'\<lparr>glbCntSearch := glbCntSearch s' - 1\<rparr>)
          else if glbBruteForce s' then
            Inr (s'\<lparr>found := True, glbCntSearch := glbCntSearch s' - 1\<rparr>)
          else Inr (s'\<lparr>found := True\<rparr>))
      else if \<not> glbBruteForce s \<and> 2 \<le> glbPower s \<and> 8 < glbCntSearch s then
        and_then (parkerPrintMatrix s) (\<lambda>(ok, s'). Inr s')
      else Inr s)"

definition checkpoint_tick :: "engine \<Rightarrow> engine" where
  "checkpoint_tick s =
     (let s1 = s\<lparr>iteration := iteration s + 1\<rparr>
      in if 100000000 < iteration s1 then parkerStateSave (s1\<lparr>iteration := 0\<rparr>) else s1)"

definition step_body :: "engine \<Rightarrow> py_error + engine" where
  "step_body s =
     and_then (py_get (glbSearchArr s) (glbCntSearch s)) (\<lambda>entry.
       case entry of
         None \<Rightarrow> Inl KeyError
       | Some currSearch \<Rightarrow>
           (case calc currSearch of
              None \<Rightarrow> iterate_field s (field currSearch) (start currSearch)
            | Some currCalc \<Rightarrow>
                and_then (py_get (glbMatrix s) (field currSearch)) (\<lambda>cur.
                  if cur \<noteq> 0 then
                    and_then (py_set (glbMatrix s) (field currSearch) 0) (\<lambda>m.
                      Inr (s\<lparr>glbMatrix := m, glbCntSearch := glbCntSearch s - 1\<rparr>))
                  else
                    and_then (calc_field s (field currSearch) currCalc) (\<lambda>(filled, s').
                      if filled then after_fill s' else Inr s'))))"

definition search_step :: "engine \<Rightarrow> py_error + engine" where
  "search_step s = step_body (checkpoint_tick s)"

definition loop_cond :: "engine \<Rightarrow> bool" where
  "loop_cond s = (checkSearch s < glbCntSearch s \<and> glbCntSearch s \<le> glbMatrixSize)"

fun search_loop :: "nat \<Rightarrow> engine \<Rightarrow> (py_error + engine) option" where
  "search_loop 0 s = (if loop_cond s then None else Some (Inr s))"
| "search_loop (Suc fuel) s =
     (if loop_cond s then
        (case search_step s of
           Inl e \<Rightarrow> Some (Inl e)
         | Inr s' \<Rightarrow> search_loop fuel s')
      else Some (Inr s))"

datatype search_start = Rejected | Ready engine

definition search_bounds :: "engine \<Rightarrow> engine" where
  "search_bounds s =
     (if glbBruteForce s then s\<lparr>maxSearch := glbArrSize s, checkSearch := 0\<rparr>
      else if glbPower s = 1 then
        s\<lparr>glbMatrix := (glbMatrix s)[5 := glbMagicNumber s div 3],
          checkSearch := 1,
          maxSearch := glbMagicNumber s div 3 + 1\<rparr>
      else s\<lparr>maxSearch := glbArrSize s div 2 + 1, checkSearch := 0\<rparr>)"

definition search_begin :: "engine \<Rightarrow> (py_error + search_start) option" where
  "search_begin s0 =
     (if glbMagicNumber s0 mod 3 \<noteq> 0 then Some (Inr Rejected)
      else
        let s = search_bounds s0;
            three = (if glbPower s = 2 then ParkerThreeSquareCheck (glbMagicNumber s)
                     else Some True)
        in case three of
             None \<Rightarrow> None
           | Some False \<Rightarrow> Some (Inr Rejected)
           | Some True \<Rightarrow>
               (case parkerStateRead
                       (s\<lparr>found := False, glbCntSearch := checkSearch s + 1, iteration := 0\<rparr>) of
                  Inl e \<Rightarrow> Some (Inl e)
                | Inr s' \<Rightarrow> Some (Inr (Ready s'))))"

definition parkerSearch :: "nat \<Rightarrow> engine \<Rightarrow> (py_error + bool \<times> engine) option" where
  "parkerSearch fuel s0 =
     (case search_begin s0 of
        None \<Rightarrow> None
      | Some (Inl e) \<Rightarrow> Some (Inl e)
      | Some (Inr Rejected) \<Rightarrow> Some (Inr (False, s0))
      | Some (Inr (Ready s)) \<Rightarrow>
          (case search_loop fuel s of
             None \<Rightarrow> None
           | Some (Inl e) \<Rightarrow> Some (Inl e)
           | Some (Inr s') \<Rightarrow>
               Some (Inr (found s',
                          (case glbStateFile s' of
                             None \<Rightarrow> s'
                           | Some _ \<Rightarrow> s'\<lparr>disk := Missing\<rparr>)))))"

definition ParkerSquare :: "nat \<Rightarrow> config \<Rightarrow> (py_error + bool \<times> engine) option" where
  "ParkerSquare fuel cfg =
     (case parkerInit cfg of
        Inl e \<Rightarrow> Some (Inl e)
      | Inr s \<Rightarrow> parkerSearch fuel s)"


text \<open>
  The state at the head of the loop after \<open>n\<close> rounds that all passed the loop condition and
  raised nothing, and the state that a run of \<^verbatim>\<open>ParkerSquare\<close> on a configuration has
  reached after \<open>n\<close> rounds.
\<close>

fun search_steps :: "nat \<Rightarrow> engine \<Rightarrow> engine option" where
  "search_steps 0 s = Some s"
| "search_steps (Suc n) s =
     (if loop_cond s then
        (case search_step s of Inl e \<Rightarrow> None | Inr s' \<Rightarrow> search_steps n s')
      else None)"

definition reached :: "nat \<Rightarrow> config \<Rightarrow> engine option" where
  "reached n cfg =
     (case parkerInit cfg of
        Inl e \<Rightarrow> None
      | Inr e \<Rightarrow>
          (case search_begin e of
             Some (Inr (Ready s0)) \<Rightarrow> search_steps n s0
           | _ \<Rightarrow> None))"

subsection \<open>The search step of parkersquare2.py\<close>

text \<open>
  Lines 483 to 520 of \<^verbatim>\<open>parkersquare2.py\<close>: the same step as \<open>calc_field\<close>, but the table is
  only the list \<^verbatim>\<open>glbArrNumbers\<close>; membership is tested on the list and the index is the first
  position holding the value (\<^verbatim>\<open>enumerate\<close> with \<^verbatim>\<open>break\<close>). When no position is found the
  value is kept as it is, as in the source.
\<close>

fun first_index :: "int list \<Rightarrow> int \<Rightarrow> int \<Rightarrow> int option" where
  "first_index [] fldValue iCntKey = None"
| "first_index (iCntVal # rest) fldValue iCntKey =
     (if iCntVal = fldValue then Some iCntKey else first_index rest fldValue (iCntKey + 1))"

definition calc_field2 :: "engine \<Rightarrow> int \<Rightarrow> int \<times> int \<Rightarrow> py_error + bool \<times> engine" where
  "calc_field2 s currField currCalc =
     and_then (py_get (glbMatrix s) (fst currCalc)) (\<lambda>fldPos1.
     and_then (py_get (glbMatrix s) (snd currCalc)) (\<lambda>fldPos2.
     and_then (py_get (glbArrNumbers s) fldPos1) (\<lambda>v1.
     and_then (py_get (glbArrNumbers s) fldPos2) (\<lambda>v2.
       let fldValue = glbMagicNumber s - v1 - v2
       in if fldValue \<le> 0 then Inr (False, s\<lparr>glbCntSearch := glbCntSearch s - 1\<rparr>)
          else if fldValue \<notin> set (glbArrNumbers s) then
            Inr (False, s\<lparr>glbCntSearch := glbCntSearch s - 1\<rparr>)
          else
            let idx = (case first_index (glbArrNumbers s) fldValue 0 of
                         None \<Rightarrow> fldValue
                       | Some iCntKey \<Rightarrow> iCntKey)
            in if idx \<in> set (glbMatrix s) then
                 Inr (False, s\<lparr>glbCntSearch := glbCntSearch s - 1\<rparr>)
               else and_then (py_set (glbMatrix s) currField idx) (\<lambda>m.
                      Inr (True, s\<lparr>glbMatrix := m,
                                     glbCntSearch := glbCntSearch s + 1\<rparr>))))))"

text \<open>
  \<^verbatim>\<open>_parkerPrintMatrix\<close> of \<^verbatim>\<open>parkersquare2.py\<close> (lines 253 to 325) computes the eight sums,
  then prints the grid twice without any condition: once as magnitudes, once as roots, each
  root by \<^verbatim>\<open>ParkerIntegerSqrt\<close> and formatted with a width. \<^verbatim>\<open>math.log10\<close> raises ValueError
  for a magic number that is not positive; a root that is \<^verbatim>\<open>None\<close> cannot be formatted
  (TypeError); \<^verbatim>\<open>ParkerIntegerSqrt\<close> itself may raise or not return.
\<close>

fun cells :: "int list \<Rightarrow> int list \<Rightarrow> int list \<Rightarrow> py_error + int list" where
  "cells numbers matrix [] = Inr []"
| "cells numbers matrix (i # rest) =
     and_then (cell numbers matrix i) (\<lambda>v.
     and_then (cells numbers matrix rest) (\<lambda>vs. Inr (v # vs)))"

fun print_roots :: "int list \<Rightarrow> (py_error + unit) option" where
  "print_roots [] = Some (Inr ())"
| "print_roots (v # vs) =
     (case ParkerIntegerSqrt v of
        None \<Rightarrow> None
      | Some (Inl e) \<Rightarrow> Some (Inl e)
      | Some (Inr None) \<Rightarrow> Some (Inl TypeError)
      | Some (Inr (Some r)) \<Rightarrow> print_roots vs)"

definition parkerPrintMatrix2 :: "engine \<Rightarrow> (py_error + bool \<times> engine) option" where
  "parkerPrintMatrix2 s =
     (case line_sums (glbArrNumbers s) (glbMatrix s) all_lines of
        Inl e \<Rightarrow> Some (Inl e)
      | Inr vs \<Rightarrow>
          if glbMagicNumber s \<le> 0 then Some (Inl ValueError)
          else
            (case cells (glbArrNumbers s) (glbMatrix s) [1, 2, 3, 4, 5, 6, 7, 8, 9] of
               Inl e \<Rightarrow> Some (Inl e)
             | Inr magnitudes \<Rightarrow>
                 (case print_roots magnitudes of
                    None \<Rightarrow> None
                  | Some (Inl e) \<Rightarrow> Some (Inl e)
                  | Some (Inr u) \<Rightarrow>
                      let result = list_all (\<lambda>v. v = glbMagicNumber s) vs
                      in Some (Inr (result,
                                    s\<lparr>printed := printed s
                                         @ [Printout (glbCntSearch s) (glbMatrix s) vs
                                              result]\<rparr>)))))"

text \<open>
  The body of the loop of \<^verbatim>\<open>_parkerSearch\<close> in \<^verbatim>\<open>parkersquare2.py\<close> (lines 447 to 536). The
  iterated branch is literally that of \<^verbatim>\<open>parkersquare.py\<close>; the derived branch is
  \<open>calc_field2\<close>, followed by the check past position 9 or, from cursor 6 on, by a display of
  the grid. The plan of lines 426 to 435 is \<open>brute_plan\<close>.
\<close>

definition after_fill2 :: "engine \<Rightarrow> (py_error + engine) option" where
  "after_fill2 s =
     (if glbMatrixSize < glbCntSearch s then
        (case parkerPrintMatrix2 s of
           None \<Rightarrow> None
         | Some (Inl e) \<Rightarrow> Some (Inl e)
         | Some (Inr (ok, s')) \<Rightarrow>
             if \<not> ok then Some (Inr (s'\<lparr>glbCntSearch := glbCntSearch s' - 1\<rparr>))
             else Some (Inr (s'\<lparr>found := True\<rparr>)))
      else if 5 < glbCntSearch s then
        (case parkerPrintMatrix2 s of
           None \<Rightarrow> None
         | Some (Inl e) \<Rightarrow> Some (Inl e)
         | Some (Inr (ok, s')) \<Rightarrow> Some (Inr s'))
      else Some (Inr s))"

definition step_body2 :: "engine \<Rightarrow> (py_error + engine) option" where
  "step_body2 s =
     (case py_get (glbSearchArr s) (glbCntSearch s) of
        Inl e \<Rightarrow> Some (Inl e)
      | Inr None \<Rightarrow> Some (Inl KeyError)
      | Inr (Some currSearch) \<Rightarrow>
          (case calc currSearch of
             None \<Rightarrow> Some (iterate_field s (field currSearch) (start currSearch))
           | Some currCalc \<Rightarrow>
               (case py_get (glbMatrix s) (field currSearch) of
                  Inl e \<Rightarrow> Some (Inl e)
                | Inr cur \<Rightarrow>
                    if cur \<noteq> 0 then
                      Some (and_then (py_set (glbMatrix s) (field currSearch) 0) (\<lambda>m.
                              Inr (s\<lparr>glbMatrix := m, glbCntSearch := glbCntSearch s - 1\<rparr>)))
                    else
                      (case calc_field2 s (field currSearch) currCalc of
                         Inl e \<Rightarrow> Some (Inl e)
                       | Inr (filled, s') \<Rightarrow>
                           if filled then after_fill2 s' else Some (Inr s')))))"

fun search_loop2 :: "nat \<Rightarrow> engine \<Rightarrow> (py_error + engine) option" where
  "search_loop2 0 s = (if loop_cond s then None else Some (Inr s))"
| "search_loop2 (Suc fuel) s =
     (if loop_cond s then
        (case step_body2 s of
           None \<Rightarrow> None
         | Some (Inl e) \<Rightarrow> Some (Inl e)
         | Some (Inr s') \<Rightarrow> search_loop2 fuel s')
      else Some (Inr s))"

subsection \<open>The dual-square table of parkersquare2.py\<close>

text \<open>
  The table construction of \<^verbatim>\<open>_parkerDualSquares\<close> (lines 363 to 391 of
  \<^verbatim>\<open>parkersquare2.py\<close>): the loop \<^verbatim>\<open>while xSquare < x5\<close> appends the pair
  \<open>(xSquare, xCounterSquare)\<close> when the counter is a perfect square other than
  \<open>xSquare\<close>; fewer than 8 entries give False (here \<open>None\<close>), otherwise the centre is
  appended last.
\<close>

function dual_loop ::
    "int \<Rightarrow> int \<Rightarrow> int \<Rightarrow> int \<Rightarrow> int list \<Rightarrow> (py_error + int list) option" where
  "dual_loop x5 xMiddleNumber xCount xSquare arr =
     (if xSquare < x5 then
        (case ParkerIsSquare (xMiddleNumber - (xCount + 1) * (xCount + 1)) of
           None \<Rightarrow> None
         | Some (Inl e) \<Rightarrow> Some (Inl e)
         | Some (Inr sq) \<Rightarrow>
             if \<not> sq then
               dual_loop x5 xMiddleNumber (xCount + 1) ((xCount + 1) * (xCount + 1)) arr
             else if (xCount + 1) * (xCount + 1) = xMiddleNumber - (xCount + 1) * (xCount + 1) then
               dual_loop x5 xMiddleNumber (xCount + 1) ((xCount + 1) * (xCount + 1)) arr
             else
               dual_loop x5 xMiddleNumber (xCount + 1) ((xCount + 1) * (xCount + 1))
                 (arr @ [(xCount + 1) * (xCount + 1),
                         xMiddleNumber - (xCount + 1) * (xCount + 1)]))
      else Some (Inr arr))"
  by pat_completeness auto
termination
proof (relation "measure (\<lambda>(x5, xMiddleNumber, xCount, xSquare, arr).
                   if xSquare < x5 then Suc (nat (x5 - xCount)) else 0)")
  show "wf (measure (\<lambda>(x5, xMiddleNumber, xCount, xSquare, arr).
                   if xSquare < x5 then Suc (nat (x5 - xCount)) else 0))"
    by simp
next
  have le_sq: "k \<le> k * k" for k :: int
  proof (cases "k \<le> 0")
    case True
    have "0 \<le> k * k" by simp
    with True show ?thesis by linarith
  next
    case False
    then have "k * 1 \<le> k * k"
      by (intro mult_left_mono) auto
    then show ?thesis by simp
  qed
  fix x5 xMiddleNumber xCount xSquare :: int and arr :: "int list"
  assume "xSquare < x5"
  show "((x5, xMiddleNumber, xCount + 1, (xCount + 1) * (xCount + 1), arr),
         (x5, xMiddleNumber, xCount, xSquare, arr))
        \<in> measure (\<lambda>(x5, xMiddleNumber, xCount, xSquare, arr).
                     if xSquare < x5 then Suc (nat (x5 - xCount)) else 0)"
    using \<open>xSquare < x5\<close> le_sq [of "xCount + 1"] by auto
  show "((x5, xMiddleNumber, xCount + 1, (xCount + 1) * (xCount + 1), arr),
         (x5, xMiddleNumber, xCount, xSquare, arr))
        \<in> measure (\<lambda>(x5, xMiddleNumber, xCount, xSquare, arr).
                     if xSquare < x5 then Suc (nat (x5 - xCount)) else 0)"
    using \<open>xSquare < x5\<close> le_sq [of "xCount + 1"] by auto
  show "((x5, xMiddleNumber, xCount + 1, (xCount + 1) * (xCount + 1),
          arr @ [(xCount + 1) * (xCount + 1), xMiddleNumber - (xCount + 1) * (xCount + 1)]),
         (x5, xMiddleNumber, xCount, xSquare, arr))
        \<in> measure (\<lambda>(x5, xMiddleNumber, xCount, xSquare, arr).
                     if xSquare < x5 then Suc (nat (x5 - xCount)) else 0)"
    using \<open>xSquare < x5\<close> le_sq [of "xCount + 1"] by auto
qed

declare dual_loop.simps [simp del]

definition parkerDualSquares :: "int \<Rightarrow> (py_error + int list option) option" where
  "parkerDualSquares magicNumber =
     (let x5 = magicNumber div 3; xMiddleNumber = magicNumber - x5
      in case dual_loop x5 xMiddleNumber 0 0 [0] of
           None \<Rightarrow> None
         | Some (Inl e) \<Rightarrow> Some (Inl e)
         | Some (Inr arr) \<Rightarrow>
             if length arr < 8 then Some (Inr None) else Some (Inr (Some (arr @ [x5]))))"

subsection \<open>Relations between two runs of the search\<close>

text \<open>
  Two relations used to compare an uninterrupted run with a run resumed from a checkpoint.
  \<open>same_setup\<close>: the two states have the same magic number, power, mode, table, plan, state
  file name and bounds, that is everything the loop never assigns. \<open>resumes P F a b\<close>: in
  addition cursor and grid agree, the uninterrupted state \<open>a\<close> has printed \<open>P\<close> followed by what
  \<open>b\<close> has printed, and \<open>a\<close> has found a solution exactly if \<open>F\<close> holds or \<open>b\<close> has found one. The
  iteration counter and the content of the state file are left free.
\<close>

definition resumes :: "printout list \<Rightarrow> bool \<Rightarrow> engine \<Rightarrow> engine \<Rightarrow> bool" where
  "resumes P F a b \<longleftrightarrow>
     glbMagicNumber a = glbMagicNumber b \<and> glbPower a = glbPower b
     \<and> glbBruteForce a = glbBruteForce b \<and> glbArrSize a = glbArrSize b
     \<and> glbArrNumbers a = glbArrNumbers b \<and> glbArrValues a = glbArrValues b
     \<and> glbSearchArr a = glbSearchArr b \<and> glbMatrix a = glbMatrix b
     \<and> glbCntSearch a = glbCntSearch b \<and> glbStateFile a = glbStateFile b
     \<and> maxSearch a = maxSearch b \<and> checkSearch a = checkSearch b
     \<and> printed a = P @ printed b \<and> (found a \<longleftrightarrow> F \<or> found b)"

definition same_setup :: "engine \<Rightarrow> engine \<Rightarrow> bool" where
  "same_setup a b \<longleftrightarrow>
     glbMagicNumber a = glbMagicNumber b \<and> glbPower a = glbPower b
     \<and> glbBruteForce a = glbBruteForce b \<and> glbArrSize a = glbArrSize b
     \<and> glbArrNumbers a = glbArrNumbers b \<and> glbArrValues a = glbArrValues b
     \<and> glbSearchArr a = glbSearchArr b \<and> glbStateFile a = glbStateFile b
     \<and> maxSearch a = maxSearch b \<and> checkSearch a = checkSearch b"


subsection \<open>Concrete inputs\<close>

text \<open>
  The variables of the closure \<^verbatim>\<open>ParkerSquare\<close> as lines 81 to 100 of
  \<^verbatim>\<open>parkersquare.py\<close> initialise them, and a configuration for the magic number 15 with
  power 1 and the state file switched on. They are the concrete inputs of the examples.
\<close>

definition closure_defaults :: engine where
  "closure_defaults =
     \<lparr>glbMagicNumber = 15,
      glbPower = 2,
      glbBruteForce = False,
      glbArrSize = 1,
      glbArrNumbers = [0],
      glbArrValues = Map.empty,
      glbSearchArr = replicate 10 None,
      glbMatrix = replicate 10 0,
      glbCntSearch = 0,
      glbStateFile = None,
      maxSearch = 0,
      checkSearch = 0,
      found = False,
      iteration = 0,
      printed = [],
      disk = Missing\<rparr>"

definition example_config :: config where
  "example_config =
     \<lparr>inMagicNumber = 15, cfg_power = 1, cfg_bruteforce = False, cfg_state = True,
      libm_root = (\<lambda>b p. 0), on_disk = Missing\<rparr>"




declare strip_fours.simps [code] newton_loop.simps [code] reduce_fours.simps [code]
  babylonian.simps [code]

section \<open>Basic facts about the Python helpers\<close>

lemma and_then_simps [simp]:
  "and_then (Inl e) f = Inl e"
  "and_then (Inr x) f = f x"
  by (simp_all add: and_then_def)

lemma and_then_eq_Inr_iff:
  "and_then m f = Inr y \<longleftrightarrow> (\<exists>x. m = Inr x \<and> f x = Inr y)"
  by (cases m) simp_all

section \<open>Properties of ParkerThreeSquareCheck\<close>

lemma strip_fours_positive: "1 \<le> n \<Longrightarrow> \<exists>m. strip_fours n = Some m"
proof (induction "nat n" arbitrary: n rule: less_induct)
  case less
  show ?case
  proof (cases "n mod 4 = 0")
    case True
    with less.prems have "1 \<le> n div 4"
      by presburger
    moreover from True less.prems have "nat (n div 4) < nat n"
      by (simp add: nat_less_iff; presburger)
    ultimately
    obtain m where "strip_fours (n div 4) = Some m"
      using less.hyps by blast
    with True show ?thesis
      by (subst strip_fours.simps) simp
  next
    case False
    then show ?thesis
      by (subst strip_fours.simps) simp
  qed
qed

lemma strip_fours_Some_nonzero:
  assumes "strip_fours n = Some m"
  shows "n \<noteq> 0"
proof (rule strip_fours.raw_induct [where P = "\<lambda>n m. n \<noteq> 0", OF _ assms])
  fix f :: "int \<Rightarrow> int option" and x y
  assume ih: "\<And>x y. f x = Some y \<Longrightarrow> x \<noteq> 0"
    and unfolded: "(if x mod 4 = 0 then f (x div 4) else Some x) = Some y"
  show "x \<noteq> 0"
  proof
    assume "x = 0"
    with unfolded have "f 0 = Some y" by simp
    with ih show False by blast
  qed
qed

lemma strip_fours_zero: "strip_fours 0 = None"
  using strip_fours_Some_nonzero [of 0] by (cases "strip_fours 0") auto

text \<open>
  Claim C10. The three-square filter returns for every input \<open>n \<ge> 1\<close>: each round of the
  divide-by-4 loop replaces \<open>n\<close> by a strictly smaller number that is still at least 1.
  At \<open>n = 0\<close> the loop never ends (\<open>0 % 4 == 0\<close> and \<open>0 // 4 == 0\<close>), so among the
  non-negative numbers the filter returns exactly for \<open>n \<ge> 1\<close>.
\<close>

theorem ParkerThreeSquareCheck_returns:
  "(1 \<le> n \<longrightarrow> (\<exists>b. ParkerThreeSquareCheck n = Some b))
   \<and> (1 \<le> n \<and> n mod 4 = 0 \<longrightarrow> 1 \<le> n div 4 \<and> n div 4 < n)
   \<and> ParkerThreeSquareCheck 0 = None
   \<and> (0 \<le> n \<and> ParkerThreeSquareCheck n \<noteq> None \<longrightarrow> 1 \<le> n)"
proof (intro conjI impI)
  assume "1 \<le> n"
  then obtain m where "strip_fours n = Some m"
    using strip_fours_positive by blast
  then show "\<exists>b. ParkerThreeSquareCheck n = Some b"
    by (simp add: ParkerThreeSquareCheck_def)
next
  assume "1 \<le> n \<and> n mod 4 = 0"
  then show "1 \<le> n div 4" and "n div 4 < n"
    by presburger+
next
  show zero: "ParkerThreeSquareCheck 0 = None"
    by (simp add: ParkerThreeSquareCheck_def strip_fours_zero)
  assume "0 \<le> n \<and> ParkerThreeSquareCheck n \<noteq> None"
  with zero show "1 \<le> n"
    by (cases "n = 0") auto
qed

theorem ParkerThreeSquareCheck_returns_witness:
  "(1::int) \<le> 28 \<and> ParkerThreeSquareCheck 28 = Some False
   \<and> (28::int) mod 4 = 0 \<and> (28::int) div 4 = 7
   \<and> ParkerThreeSquareCheck 0 = None"
proof -
  have "strip_fours 28 = Some 7"
    by (simp add: strip_fours.simps)
  then have "ParkerThreeSquareCheck 28 = Some False"
    by (simp add: ParkerThreeSquareCheck_def)
  then show ?thesis
    using ParkerThreeSquareCheck_returns [of 28] by simp
qed

section \<open>Properties of ParkerIntegerSqrt\<close>

text \<open>
  Claim C3. The claim says that \<^verbatim>\<open>ParkerIntegerSqrt\<close> returns \<open>k\<close> on \<open>k * k\<close> for every
  \<open>k \<ge> 0\<close>. At \<open>n = 1 = 1 * 1\<close> the first candidate is \<open>x = 1 // 2 = 0\<close> and the
  loop evaluates \<open>n // x\<close>: the function raises ZeroDivisionError instead of returning 1
  (its docstring promises the root, or None).
\<close>

theorem ParkerIntegerSqrt_one_raises:
  "ParkerIntegerSqrt (1 * 1) = Some (Inl ZeroDivisionError)
   \<and> ParkerIntegerSqrt (1 * 1) \<noteq> Some (Inr (Some 1))"
  by (simp add: ParkerIntegerSqrt_def newton_loop.simps)

section \<open>Properties of the checkpoint\<close>

lemma parkerInit_fields:
  assumes "parkerInit cfg = Inr e"
  shows "glbMagicNumber e = inMagicNumber cfg" and "glbPower e = cfg_power cfg"
    and "glbStateFile e = (if cfg_state cfg then Some ''state_<magic>.txt'' else None)"
    and "disk e = on_disk cfg" and "printed e = []"
  using assms by (auto simp: parkerInit_def and_then_eq_Inr_iff case_prod_beta)

lemma search_bounds_fields:
  "glbMagicNumber (search_bounds e) = glbMagicNumber e"
  "glbPower (search_bounds e) = glbPower e"
  "glbStateFile (search_bounds e) = glbStateFile e"
  "printed (search_bounds e) = printed e"
  "disk (search_bounds e) = disk e"
  by (simp_all add: search_bounds_def)

lemma search_begin_read:
  assumes "glbMagicNumber e mod 3 = 0"
    and "glbPower e = 2 \<longrightarrow> ParkerThreeSquareCheck (glbMagicNumber e) = Some True"
  shows "search_begin e =
           (case parkerStateRead
                   ((search_bounds e)\<lparr>found := False,
                      glbCntSearch := checkSearch (search_bounds e) + 1, iteration := 0\<rparr>) of
              Inl err \<Rightarrow> Some (Inl err)
            | Inr s' \<Rightarrow> Some (Inr (Ready s')))"
proof -
  have "(if glbPower (search_bounds e) = 2
         then ParkerThreeSquareCheck (glbMagicNumber (search_bounds e))
         else Some True) = Some True"
    using assms(2) by (simp add: search_bounds_fields)
  then show ?thesis
    unfolding search_begin_def Let_def using assms(1) by simp
qed

text \<open>
  Claim C7, as stated, fails. It says that an absent, an unparsable and a structurally
  invalid checkpoint all behave as no checkpoint. For the magic number 15 with power 1 the
  fresh search finds the Lo Shu square. With an unparsable state file the same search is
  aborted by JSONDecodeError; with a stored grid that holds 4 and 6 twice and cursor 9 the
  search resumes into it and reports a grid with duplicates as a solution.
\<close>

theorem checkpoint_read_counterexample:
  "map_option (map_sum id (\<lambda>(b, s). (b, printed s))) (ParkerSquare 44 example_config)
     = Some (Inr (True, [Printout 10 [0, 2, 9, 4, 7, 5, 3, 6, 1, 8]
                           [15, 15, 15, 15, 15, 15, 15, 15] True]))
   \<and> map_option (map_sum id fst)
        (ParkerSquare 44 (example_config\<lparr>on_disk := Unparsable\<rparr>))
       = Some (Inl JSONDecodeError)
   \<and> map_option (map_sum id (\<lambda>(b, s). (b, printed s)))
        (ParkerSquare 44
           (example_config\<lparr>on_disk :=
              Parsed (Some 9) (Some [0, 4, 8, 3, 4, 5, 6, 0, 2, 6])\<rparr>))
       = Some (Inr (True, [Printout 10 [0, 4, 8, 3, 4, 5, 6, 7, 2, 6]
                             [15, 15, 15, 15, 15, 15, 15, 15] True]))"
  by code_simp

text \<open>
  Claim C7, amended. The read leaves cursor and grid alone only when the checkpoint is
  absent: no state file is configured, the file does not exist, or the parsed object has no
  key \<^verbatim>\<open>glbCntSearch\<close>. An unparsable file raises JSONDecodeError out of the read, and out
  of every run \<^verbatim>\<open>ParkerSquare\<close> that gets as far as the read (state file configured, table
  built, magic number divisible by 3, three-square filter passed): nothing catches it. An
  object with the key \<^verbatim>\<open>glbCntSearch\<close> but without \<^verbatim>\<open>glbMatrix\<close> raises KeyError. An object
  with an integer cursor and a list of integers as grid is adopted as it is, whatever the
  cursor and whatever the length and the entries of the grid, and the search starts from
  them.
\<close>

theorem parkerStateRead_adopts:
  "(glbStateFile s = None \<or> disk s = Missing \<or> (\<exists>m. disk s = Parsed None m)
      \<longrightarrow> parkerStateRead s = Inr s)
   \<and> (glbStateFile s \<noteq> None \<and> disk s = Unparsable
      \<longrightarrow> parkerStateRead s = Inl JSONDecodeError)
   \<and> (glbStateFile s \<noteq> None \<and> disk s = Parsed (Some c) None
      \<longrightarrow> parkerStateRead s = Inl KeyError)
   \<and> (glbStateFile s \<noteq> None \<and> disk s = Parsed (Some c) (Some m)
      \<longrightarrow> parkerStateRead s = Inr (s\<lparr>glbCntSearch := c, glbMatrix := m\<rparr>))
   \<and> (parkerInit cfg = Inr e \<and> cfg_state cfg \<and> inMagicNumber cfg mod 3 = 0
        \<and> (cfg_power cfg = 2 \<longrightarrow> ParkerThreeSquareCheck (inMagicNumber cfg) = Some True)
      \<longrightarrow> (on_disk cfg = Unparsable
             \<longrightarrow> ParkerSquare fuel cfg = Some (Inl JSONDecodeError))
          \<and> (on_disk cfg = Parsed (Some c) (Some m)
             \<longrightarrow> (\<exists>s'. search_begin e = Some (Inr (Ready s'))
                      \<and> glbCntSearch s' = c \<and> glbMatrix s' = m
                      \<and> ParkerSquare fuel cfg = parkerSearch fuel e)))"
proof (intro conjI impI)
  assume "glbStateFile s = None \<or> disk s = Missing \<or> (\<exists>m. disk s = Parsed None m)"
  then show "parkerStateRead s = Inr s"
    by (auto simp: parkerStateRead_def split: option.splits state_file.splits)
next
  assume "glbStateFile s \<noteq> None \<and> disk s = Unparsable"
  then show "parkerStateRead s = Inl JSONDecodeError"
    by (auto simp: parkerStateRead_def split: option.splits)
next
  assume "glbStateFile s \<noteq> None \<and> disk s = Parsed (Some c) None"
  then show "parkerStateRead s = Inl KeyError"
    by (auto simp: parkerStateRead_def split: option.splits)
next
  assume "glbStateFile s \<noteq> None \<and> disk s = Parsed (Some c) (Some m)"
  then show "parkerStateRead s = Inr (s\<lparr>glbCntSearch := c, glbMatrix := m\<rparr>)"
    by (auto simp: parkerStateRead_def split: option.splits)
next
  assume run: "parkerInit cfg = Inr e \<and> cfg_state cfg \<and> inMagicNumber cfg mod 3 = 0
        \<and> (cfg_power cfg = 2 \<longrightarrow> ParkerThreeSquareCheck (inMagicNumber cfg) = Some True)"
  then have init: "parkerInit cfg = Inr e" by simp
  note e = parkerInit_fields [OF init]
  define base where "base = (search_bounds e)\<lparr>found := False,
                      glbCntSearch := checkSearch (search_bounds e) + 1, iteration := 0\<rparr>"
  have begun: "search_begin e =
           (case parkerStateRead base of
              Inl err \<Rightarrow> Some (Inl err)
            | Inr s' \<Rightarrow> Some (Inr (Ready s')))"
    unfolding base_def using run by (intro search_begin_read) (simp_all add: e)
  have named: "glbStateFile base = Some ''state_<magic>.txt''" "disk base = on_disk cfg"
    using run by (simp_all add: base_def search_bounds_fields e)
  assume "on_disk cfg = Unparsable"
  with named have "parkerStateRead base = Inl JSONDecodeError"
    by (simp add: parkerStateRead_def)
  with begun show "ParkerSquare fuel cfg = Some (Inl JSONDecodeError)"
    by (simp add: ParkerSquare_def init parkerSearch_def)
next
  assume run: "parkerInit cfg = Inr e \<and> cfg_state cfg \<and> inMagicNumber cfg mod 3 = 0
        \<and> (cfg_power cfg = 2 \<longrightarrow> ParkerThreeSquareCheck (inMagicNumber cfg) = Some True)"
  then have init: "parkerInit cfg = Inr e" by simp
  note e = parkerInit_fields [OF init]
  define base where "base = (search_bounds e)\<lparr>found := False,
                      glbCntSearch := checkSearch (search_bounds e) + 1, iteration := 0\<rparr>"
  have begun: "search_begin e =
           (case parkerStateRead base of
              Inl err \<Rightarrow> Some (Inl err)
            | Inr s' \<Rightarrow> Some (Inr (Ready s')))"
    unfolding base_def using run by (intro search_begin_read) (simp_all add: e)
  have named: "glbStateFile base = Some ''state_<magic>.txt''" "disk base = on_disk cfg"
    using run by (simp_all add: base_def search_bounds_fields e)
  assume "on_disk cfg = Parsed (Some c) (Some m)"
  with named have read: "parkerStateRead base = Inr (base\<lparr>glbCntSearch := c, glbMatrix := m\<rparr>)"
    by (simp add: parkerStateRead_def)
  with begun show "\<exists>s'. search_begin e = Some (Inr (Ready s'))
          \<and> glbCntSearch s' = c \<and> glbMatrix s' = m
          \<and> ParkerSquare fuel cfg = parkerSearch fuel e"
    by (simp add: ParkerSquare_def init)
qed

theorem parkerStateRead_adopts_witness:
  "parkerStateRead (closure_defaults\<lparr>glbStateFile := Some ''state_15.txt''\<rparr>)
     = Inr (closure_defaults\<lparr>glbStateFile := Some ''state_15.txt''\<rparr>)
   \<and> parkerStateRead
        (closure_defaults\<lparr>glbStateFile := Some ''state_15.txt'', disk := Unparsable\<rparr>)
       = Inl JSONDecodeError
   \<and> parkerStateRead
        (closure_defaults\<lparr>glbStateFile := Some ''state_15.txt'',
           disk := Parsed (Some 9) None\<rparr>)
       = Inl KeyError
   \<and> parkerStateRead
        (closure_defaults\<lparr>glbStateFile := Some ''state_15.txt'',
           disk := Parsed (Some 9) (Some [0, 4, 8, 3, 4, 5, 6, 0, 2, 6])\<rparr>)
       = Inr (closure_defaults\<lparr>glbStateFile := Some ''state_15.txt'',
                disk := Parsed (Some 9) (Some [0, 4, 8, 3, 4, 5, 6, 0, 2, 6]),
                glbCntSearch := 9, glbMatrix := [0, 4, 8, 3, 4, 5, 6, 0, 2, 6]\<rparr>)
   \<and> ParkerSquare 0 (example_config\<lparr>on_disk := Unparsable\<rparr>) = Some (Inl JSONDecodeError)
   \<and> (\<exists>e s'. parkerInit (example_config\<lparr>on_disk := Parsed (Some 12) (Some [7])\<rparr>) = Inr e
          \<and> search_begin e = Some (Inr (Ready s'))
          \<and> glbCntSearch s' = 12 \<and> glbMatrix s' = [7])"
proof -
  have init: "\<exists>e. parkerInit (example_config\<lparr>on_disk := d\<rparr>) = Inr e" for d
    by (simp add: parkerInit_def example_config_def int_root_def float_of_int_def
          bit_length.simps case_prod_beta)
  obtain e1 where e1: "parkerInit (example_config\<lparr>on_disk := Unparsable\<rparr>) = Inr e1"
    using init by blast
  obtain e2 where
    e2: "parkerInit (example_config\<lparr>on_disk := Parsed (Some 12) (Some [7])\<rparr>) = Inr e2"
    using init by blast
  have cfg: "cfg_state (example_config\<lparr>on_disk := d\<rparr>)"
    "inMagicNumber (example_config\<lparr>on_disk := d\<rparr>) mod 3 = 0"
    "cfg_power (example_config\<lparr>on_disk := d\<rparr>) \<noteq> 2"
    "on_disk (example_config\<lparr>on_disk := d\<rparr>) = d" for d
    by (simp_all add: example_config_def)
  have "ParkerSquare 0 (example_config\<lparr>on_disk := Unparsable\<rparr>) = Some (Inl JSONDecodeError)"
    using parkerStateRead_adopts
            [where cfg = "example_config\<lparr>on_disk := Unparsable\<rparr>" and e = e1 and fuel = 0
               and s = closure_defaults]
          e1 cfg
    by blast
  moreover have "\<exists>s'. search_begin e2 = Some (Inr (Ready s'))
                  \<and> glbCntSearch s' = 12 \<and> glbMatrix s' = [7]"
    using parkerStateRead_adopts
            [where cfg = "example_config\<lparr>on_disk := Parsed (Some 12) (Some [7])\<rparr>"
               and e = e2 and c = 12 and m = "[7]" and s = closure_defaults and fuel = 0]
          e2 cfg
    by blast
  moreover note
    parkerStateRead_adopts
      [where s = "closure_defaults\<lparr>glbStateFile := Some ''state_15.txt''\<rparr>"]
    parkerStateRead_adopts
      [where s = "closure_defaults\<lparr>glbStateFile := Some ''state_15.txt'',
                                    disk := Unparsable\<rparr>"]
    parkerStateRead_adopts
      [where s = "closure_defaults\<lparr>glbStateFile := Some ''state_15.txt'',
                    disk := Parsed (Some 9) None\<rparr>" and c = 9]
    parkerStateRead_adopts
      [where s = "closure_defaults\<lparr>glbStateFile := Some ''state_15.txt'',
                    disk := Parsed (Some 9) (Some [0, 4, 8, 3, 4, 5, 6, 0, 2, 6])\<rparr>"
         and c = 9 and m = "[0, 4, 8, 3, 4, 5, 6, 0, 2, 6]"]
  ultimately show ?thesis
    using e2 by (simp add: closure_defaults_def)
qed


section \<open>Properties of the value table construction\<close>

lemma foldl_pair_split:
  "foldl (\<lambda>(a, b) i. (f a i, g b i)) (a0, b0) l = (foldl f a0 l, foldl g b0 l)"
  by (induction l arbitrary: a0 b0) simp_all

lemma fill_table_split:
  "fill_table pw n =
     (foldl (\<lambda>numbers iCnt. numbers[nat iCnt := iCnt ^ pw]) (replicate (nat (n + 1)) 0) [0..n],
      foldl (\<lambda>vals iCnt. vals(iCnt ^ pw \<mapsto> iCnt)) Map.empty [0..n])"
  unfolding fill_table_def by (rule foldl_pair_split)

lemma length_foldl_update:
  "length (foldl (\<lambda>xs i. xs[nat i := h i]) xs l) = length xs"
  by (induction l arbitrary: xs) simp_all

lemma nth_foldl_update:
  assumes "\<forall>i\<in>set l. 0 \<le> i" and "j < length xs"
  shows "foldl (\<lambda>xs i. xs[nat i := h i]) xs l ! j =
           (if int j \<in> set l then h (int j) else xs ! j)"
  using assms
proof (induction l arbitrary: xs)
  case Nil
  then show ?case by simp
next
  case (Cons i l)
  have "nat i = j \<longleftrightarrow> i = int j"
    using Cons.prems(1) by auto
  with Cons show ?case
    by (auto simp: nth_list_update)
qed

lemma fill_table_numbers:
  "fst (fill_table pw n) = map (\<lambda>i. i ^ pw) [0..n]"
proof (rule nth_equalityI)
  show "length (fst (fill_table pw n)) = length (map (\<lambda>i. i ^ pw) [0..n])"
    by (simp add: fill_table_split length_foldl_update)
next
  fix j
  assume "j < length (fst (fill_table pw n))"
  then have j: "j < nat (n + 1)"
    by (simp add: fill_table_split length_foldl_update)
  then have "int j \<le> n"
    by linarith
  with j show "fst (fill_table pw n) ! j = map (\<lambda>i. i ^ pw) [0..n] ! j"
    by (simp add: fill_table_split nth_foldl_update)
qed



definition dual_inv :: "int \<Rightarrow> int \<Rightarrow> int list \<Rightarrow> bool" where
  "dual_inv x5 xSquare arr \<longleftrightarrow>
     distinct arr \<and>
     (\<forall>v\<in>set arr. v = 0 \<or> (0 < v \<and> v \<le> xSquare \<and> v < x5) \<or> (x5 < v \<and> 2 * x5 - xSquare \<le> v))"

lemma square_less_imp_less:
  fixes a c :: int
  assumes "a * a < c * c" and "0 \<le> c"
  shows "a < c"
proof (rule ccontr)
  assume "\<not> a < c"
  then have "c \<le> a" by simp
  with assms(2) have "c * c \<le> a * a"
    by (intro mult_mono) auto
  with assms(1) show False by simp
qed

lemma dual_inv_skip:
  assumes "dual_inv x5 (k * k) arr" and "0 \<le> k"
  shows "dual_inv x5 ((k + 1) * (k + 1)) arr"
proof -
  have "k * k \<le> (k + 1) * (k + 1)"
    using assms(2) by (simp add: algebra_simps)
  with assms(1) show ?thesis
    unfolding dual_inv_def by fastforce
qed

lemma dual_inv_append:
  assumes inv: "dual_inv (c * c) (k * k) arr" and k: "0 \<le> k" and c: "0 \<le> c"
    and run: "k * k < c * c"
    and ne: "(k + 1) * (k + 1) \<noteq> 2 * (c * c) - (k + 1) * (k + 1)"
  shows "dual_inv (c * c) ((k + 1) * (k + 1))
           (arr @ [(k + 1) * (k + 1), 2 * (c * c) - (k + 1) * (k + 1)])"
proof -
  have "k < c"
    using run c by (rule square_less_imp_less)
  then have "(k + 1) * (k + 1) \<le> c * c"
    using k by (intro mult_mono) auto
  with ne have below: "(k + 1) * (k + 1) < c * c"
    by linarith
  have grow: "k * k < (k + 1) * (k + 1)"
    using k by (simp add: algebra_simps)
  have pos: "0 < (k + 1) * (k + 1)"
    using k by (simp add: algebra_simps add_pos_nonneg)
  from inv below grow pos ne show ?thesis
    unfolding dual_inv_def by (auto; fastforce)
qed

lemma dual_loop_distinct:
  assumes "dual_loop (c * c) (2 * (c * c)) k (k * k) arr = Some (Inr arr')"
    and "0 \<le> k" and "0 \<le> c" and "dual_inv (c * c) (k * k) arr"
  shows "distinct arr' \<and> (\<forall>v\<in>set arr'. v = 0 \<or> v \<noteq> c * c)"
  using assms
proof (induction "nat (c - k)" arbitrary: k arr rule: less_induct)
  case less
  show ?case
  proof (cases "k * k < c * c")
    case False
    with less.prems(1) have "arr' = arr"
      by (subst (asm) dual_loop.simps) simp
    with less.prems(4) show ?thesis
      unfolding dual_inv_def by auto
  next
    case True
    then have "k < c"
      using less.prems(3) by (rule square_less_imp_less)
    then have smaller: "nat (c - (k + 1)) < nat (c - k)"
      by simp
    have k1: "0 \<le> k + 1"
      using less.prems(2) by simp
    let ?s = "(k + 1) * (k + 1)"
    let ?counter = "2 * (c * c) - ?s"
    from less.prems(1) True obtain sq where
      sq: "ParkerIsSquare ?counter = Some (Inr sq)"
      by (subst (asm) dual_loop.simps) (auto split: option.splits sum.splits)
    show ?thesis
    proof (cases "sq \<and> ?s \<noteq> ?counter")
      case False
      with less.prems(1) True sq
      have "dual_loop (c * c) (2 * (c * c)) (k + 1) ?s arr = Some (Inr arr')"
        by (subst (asm) dual_loop.simps) (auto split: if_splits)
      moreover have "dual_inv (c * c) ?s arr"
        using less.prems(4) less.prems(2) by (rule dual_inv_skip)
      ultimately show ?thesis
        using less.hyps [OF smaller _ k1 less.prems(3)] by blast
    next
      case append: True
      with less.prems(1) True sq
      have "dual_loop (c * c) (2 * (c * c)) (k + 1) ?s (arr @ [?s, ?counter]) = Some (Inr arr')"
        by (subst (asm) dual_loop.simps) (auto split: if_splits)
      moreover have "dual_inv (c * c) ?s (arr @ [?s, ?counter])"
        using less.prems(4) less.prems(2) less.prems(3) True append
        by (intro dual_inv_append) auto
      ultimately show ?thesis
        using less.hyps [OF smaller _ k1 less.prems(3)] by blast
    qed
  qed
qed

lemma parkerDualSquares_distinct:
  assumes "magicNumber mod 3 = 0" and "magicNumber div 3 = c * c"
    and "parkerDualSquares magicNumber = Some (Inr (Some table))"
  shows "distinct table"
proof -
  define r where "r = \<bar>c\<bar>"
  have r: "0 \<le> r" "magicNumber div 3 = r * r"
    using assms(2) by (simp_all add: r_def)
  have "magicNumber - magicNumber div 3 = 2 * (magicNumber div 3)"
    using assms(1) by presburger
  then have mid: "magicNumber - r * r = 2 * (r * r)"
    by (simp add: r(2))
  from assms(3) obtain arr where
    run: "dual_loop (r * r) (2 * (r * r)) 0 (0 * 0) [0] = Some (Inr arr)"
    and long: "\<not> length arr < 8" and table: "table = arr @ [r * r]"
    by (auto simp: parkerDualSquares_def Let_def r(2) mid
             split: option.splits sum.splits if_splits)
  have "dual_inv (r * r) (0 * 0) [0]"
    by (simp add: dual_inv_def)
  with run r(1) have d: "distinct arr" and v: "\<forall>v\<in>set arr. v = 0 \<or> v \<noteq> r * r"
    using dual_loop_distinct [of r 0 "[0]" arr] by auto
  have "r * r \<noteq> 0"
  proof
    assume "r * r = 0"
    with run have "arr = [0]"
      by (subst (asm) dual_loop.simps) simp
    with long show False by simp
  qed
  with d v show ?thesis
    by (auto simp: table)
qed


text \<open>
  Claim C9. Every magnitude in the value table is unique. In generic mode the table that
  \<^verbatim>\<open>_parkerInit\<close> builds is \<open>i ^ power\<close> for \<open>i = 0, ..., size\<close> without repetition (a
  power of 0 never gets that far: \<open>1 / glbPower\<close> raises). In dual-square mode, for a
  magic number divisible by 3 whose third is a perfect square, the table returned has no
  repetition either: the squares appended are below the centre, their counterparts above it.
\<close>

theorem table_magnitudes_unique:
  "(parkerInit cfg = Inr s \<longrightarrow>
      glbArrNumbers s = map (\<lambda>i. i ^ cfg_power cfg) [0..glbArrSize s]
      \<and> distinct (glbArrNumbers s))
   \<and> (magicNumber mod 3 = 0 \<and> magicNumber div 3 = c * c
        \<and> parkerDualSquares magicNumber = Some (Inr (Some table))
      \<longrightarrow> distinct table)"
proof (intro conjI impI)
  assume init: "parkerInit cfg = Inr s"
  then have pw: "0 < cfg_power cfg"
    by (auto simp: parkerInit_def int_root_def split: if_splits)
  from init have "glbArrNumbers s = fst (fill_table (cfg_power cfg) (glbArrSize s))"
    by (auto simp: parkerInit_def and_then_eq_Inr_iff case_prod_beta)
  then show numbers: "glbArrNumbers s = map (\<lambda>i. i ^ cfg_power cfg) [0..glbArrSize s]"
    by (simp add: fill_table_numbers)
  have "inj_on (\<lambda>i :: int. i ^ cfg_power cfg) (set [0..glbArrSize s])"
    using pw by (auto intro!: inj_onI dest: power_eq_imp_eq_base)
  then show "distinct (glbArrNumbers s)"
    by (simp add: numbers distinct_map)
next
  assume "magicNumber mod 3 = 0 \<and> magicNumber div 3 = c * c
          \<and> parkerDualSquares magicNumber = Some (Inr (Some table))"
  then have "magicNumber mod 3 = 0" "magicNumber div 3 = c * c"
    "parkerDualSquares magicNumber = Some (Inr (Some table))"
    by simp_all
  then show "distinct table"
    by (rule parkerDualSquares_distinct)
qed

lemma example_table:
  "map_sum id glbArrNumbers (parkerInit example_config)
     = Inr [0, 1, 2, 3, 4, 5, 6, 7, 8, 9, 10, 11, 12]"
  by code_simp

lemma example_dual_table:
  "parkerDualSquares 12675
     = Some (Inr (Some [0, 169, 8281, 529, 7921, 1225, 7225, 2209, 6241, 4225]))"
  by code_simp

theorem table_magnitudes_unique_witness:
  "map_sum id glbArrNumbers (parkerInit example_config)
     = Inr [0, 1, 2, 3, 4, 5, 6, 7, 8, 9, 10, 11, 12]
   \<and> distinct [0, 1, 2, 3, 4, 5, 6, 7, 8, 9, 10, 11, 12 :: int]
   \<and> (12675 :: int) mod 3 = 0 \<and> (12675 :: int) div 3 = 65 * 65
   \<and> parkerDualSquares 12675
       = Some (Inr (Some [0, 169, 8281, 529, 7921, 1225, 7225, 2209, 6241, 4225]))
   \<and> distinct [0, 169, 8281, 529, 7921, 1225, 7225, 2209, 6241, 4225 :: int]"
proof -
  obtain s where s: "parkerInit example_config = Inr s"
    and numbers: "glbArrNumbers s = [0, 1, 2, 3, 4, 5, 6, 7, 8, 9, 10, 11, 12]"
    using example_table by (cases "parkerInit example_config") auto
  have "distinct (glbArrNumbers s)"
    using table_magnitudes_unique [of example_config s] s by blast
  moreover have "distinct [0, 169, 8281, 529, 7921, 1225, 7225, 2209, 6241, 4225 :: int]"
    using table_magnitudes_unique
            [of _ _ 12675 65 "[0, 169, 8281, 529, 7921, 1225, 7225, 2209, 6241, 4225]"]
          example_dual_table
    by simp
  ultimately show ?thesis
    using example_table example_dual_table numbers by simp
qed


text \<open>
  Claim C5. The claim says that the table size is the largest \<open>k\<close> with
  \<open>k ^ power \<le> magicNumber - 1 - 2 ^ power\<close>, computed in exact integer arithmetic. The
  code computes \<^verbatim>\<open>int((glbMagicNumber - 1 - 2 ** glbPower) ** (1 / glbPower))\<close> in double
  precision. For power 1 and the magic number 999999999999999999 the operand
  999999999999999996 has 60 bits and is rounded to the nearest double, which is
  \<open>10 ^ 18\<close>: the size exceeds the operand, whatever the platform's \<open>pow\<close> does for the
  other powers.
\<close>

theorem table_size_uses_floats:
  "int_root libm (999999999999999999 - 1 - 2 ^ 1) 1 = Inr 1000000000000000000
   \<and> \<not> (1000000000000000000 :: int) ^ 1 \<le> 999999999999999999 - 1 - 2 ^ 1"
  by (simp add: int_root_def float_of_int_def bit_length.simps)

text \<open>
  Claim C6. The claim says that a magic number not divisible by 3 is rejected before any
  table is built. In \<^verbatim>\<open>parkersquare.py\<close> the closure runs \<^verbatim>\<open>_parkerInit()\<close>, which
  computes the size and fills the table, and only then \<^verbatim>\<open>_parkerSearch()\<close>, which tests
  \<open>glbMagicNumber % 3\<close>. For the magic number 4 with power 2 the size computation raises
  (a negative base under a fractional exponent is a complex number, which \<open>int\<close> refuses),
  so nothing is reported at all; for the magic number 7 with power 1 the table
  \<open>[0, 1, 2, 3, 4]\<close> stands before the search returns False.
\<close>

theorem table_built_before_divisibility_check:
  "map_option (map_sum id fst)
     (ParkerSquare 0 (example_config\<lparr>inMagicNumber := 4, cfg_power := 2\<rparr>))
     = Some (Inl TypeError)
   \<and> map_option (map_sum id (\<lambda>(b, s). (b, glbArrNumbers s)))
        (ParkerSquare 0 (example_config\<lparr>inMagicNumber := 7\<rparr>))
       = Some (Inr (False, [0, 1, 2, 3, 4]))"
  by code_simp

section \<open>Properties of the derived-field step\<close>















section \<open>Properties of the checkpoint round trip\<close>

lemma and_then_rel:
  assumes "rel_sum (=) R m m'"
    and "\<And>x y. R x y \<Longrightarrow> rel_sum (=) Q (f x) (g y)"
  shows "rel_sum (=) Q (and_then m f) (and_then m' g)"
  using assms by (cases m; cases m') (auto simp: and_then_def)

lemma and_then_rel_same:
  assumes "\<And>x. m = Inr x \<Longrightarrow> rel_sum (=) Q (f x) (g x)"
  shows "rel_sum (=) Q (and_then m f) (and_then m g)"
  using assms by (cases m) (auto simp: and_then_def)

lemma if_rel_sum:
  assumes "c \<Longrightarrow> rel_sum A B x x'" and "\<not> c \<Longrightarrow> rel_sum A B y y'"
  shows "rel_sum A B (if c then x else y) (if c then x' else y')"
  using assms by simp

lemma resumes_update:
  assumes "resumes P F a b"
  shows "resumes P F (a\<lparr>glbMatrix := m\<rparr>) (b\<lparr>glbMatrix := m\<rparr>)"
    and "resumes P F (a\<lparr>glbCntSearch := c\<rparr>) (b\<lparr>glbCntSearch := c\<rparr>)"
    and "resumes P F (a\<lparr>printed := printed a @ ps\<rparr>) (b\<lparr>printed := printed b @ ps\<rparr>)"
    and "resumes P F (a\<lparr>found := True\<rparr>) (b\<lparr>found := True\<rparr>)"
  using assms by (simp_all add: resumes_def)

lemma resumes_fields:
  assumes "resumes P F a b"
  shows "glbMagicNumber b = glbMagicNumber a" "glbPower b = glbPower a"
    "glbBruteForce b = glbBruteForce a" "glbArrSize b = glbArrSize a"
    "glbArrNumbers b = glbArrNumbers a" "glbArrValues b = glbArrValues a"
    "glbSearchArr b = glbSearchArr a" "glbMatrix b = glbMatrix a"
    "glbCntSearch b = glbCntSearch a" "glbStateFile b = glbStateFile a"
    "maxSearch b = maxSearch a" "checkSearch b = checkSearch a"
  using assms by (simp_all add: resumes_def)

lemma resumes_iterate_field:
  assumes "resumes P F a b"
  shows "rel_sum (=) (resumes P F) (iterate_field a f st) (iterate_field b f st)"
  unfolding iterate_field_def resumes_fields [OF assms] Let_def
  by (intro and_then_rel_same) (auto intro!: and_then_rel_same resumes_update assms)

lemma resumes_calc_field:
  assumes "resumes P F a b"
  shows "rel_sum (=) (rel_prod (=) (resumes P F)) (calc_field a f c) (calc_field b f c)"
  unfolding calc_field_def resumes_fields [OF assms] Let_def
  by (intro and_then_rel_same)
     (auto split: option.splits intro!: and_then_rel_same resumes_update assms)

lemma resumes_parkerPrintMatrix:
  assumes "resumes P F a b"
  shows "rel_sum (=) (rel_prod (=) (resumes P F)) (parkerPrintMatrix a) (parkerPrintMatrix b)"
  unfolding parkerPrintMatrix_def resumes_fields [OF assms] Let_def
  by (intro and_then_rel_same) (auto intro!: resumes_update assms)

lemma resumes_after_fill:
  assumes "resumes P F a b"
  shows "rel_sum (=) (resumes P F) (after_fill a) (after_fill b)"
proof -
  have pr: "rel_sum (=) (rel_prod (=) (resumes P F)) (parkerPrintMatrix a) (parkerPrintMatrix b)"
    using assms by (rule resumes_parkerPrintMatrix)
  have post: "rel_sum (=) (resumes P F)
       (case x of (ok, s') \<Rightarrow>
          if \<not> ok then Inr (s'\<lparr>glbCntSearch := glbCntSearch s' - 1\<rparr>)
          else if glbBruteForce s' then
            Inr (s'\<lparr>found := True, glbCntSearch := glbCntSearch s' - 1\<rparr>)
          else Inr (s'\<lparr>found := True\<rparr>))
       (case y of (ok, s') \<Rightarrow>
          if \<not> ok then Inr (s'\<lparr>glbCntSearch := glbCntSearch s' - 1\<rparr>)
          else if glbBruteForce s' then
            Inr (s'\<lparr>found := True, glbCntSearch := glbCntSearch s' - 1\<rparr>)
          else Inr (s'\<lparr>found := True\<rparr>))"
    if "rel_prod (=) (resumes P F) x y" for x y
  proof -
    obtain ok a' where x: "x = (ok, a')" by (cases x)
    obtain ok' b' where y: "y = (ok', b')" by (cases y)
    from that x y have r: "ok' = ok" "resumes P F a' b'" by simp_all
    show ?thesis
      unfolding x y r(1)
      by (auto simp: resumes_fields [OF r(2)] intro!: resumes_update r(2))
  qed
  have shown: "rel_sum (=) (resumes P F)
       (case x of (ok, s') \<Rightarrow> Inr s') (case y of (ok, s') \<Rightarrow> Inr s')"
    if "rel_prod (=) (resumes P F) x y" for x y
    using that by (cases x; cases y) simp
  show ?thesis
    unfolding after_fill_def resumes_fields [OF assms]
    by (intro if_rel_sum and_then_rel [OF pr] post shown) (simp_all add: assms)
qed

lemma resumes_checkpoint_tick:
  assumes "resumes P F a b"
  shows "resumes P F (checkpoint_tick a) (checkpoint_tick b)"
  using assms
  by (auto simp: resumes_def checkpoint_tick_def parkerStateSave_def Let_def
           split: option.splits)

lemma resumes_step_body:
  assumes "resumes P F a b"
  shows "rel_sum (=) (resumes P F) (step_body a) (step_body b)"
proof -
  have fill: "rel_sum (=) (resumes P F)
                (case x of (filled, s') \<Rightarrow> if filled then after_fill s' else Inr s')
                (case y of (filled, s') \<Rightarrow> if filled then after_fill s' else Inr s')"
    if "rel_prod (=) (resumes P F) x y" for x y
  proof -
    obtain ok a' where x: "x = (ok, a')" by (cases x)
    obtain ok' b' where y: "y = (ok', b')" by (cases y)
    from that x y have r: "ok' = ok" "resumes P F a' b'" by simp_all
    show ?thesis
      unfolding x y r(1) using r(2) resumes_after_fill [OF r(2)] by simp
  qed
  show ?thesis
    unfolding step_body_def resumes_fields [OF assms]
    by (intro and_then_rel_same)
       (auto split: option.splits
             intro!: and_then_rel_same resumes_iterate_field [OF assms] resumes_update assms
                     and_then_rel [OF resumes_calc_field [OF assms]] fill
                     resumes_after_fill)
qed

lemma resumes_search_step:
  assumes "resumes P F a b"
  shows "rel_sum (=) (resumes P F) (search_step a) (search_step b)"
  unfolding search_step_def
  by (rule resumes_step_body) (rule resumes_checkpoint_tick [OF assms])

lemma resumes_search_loop:
  assumes "resumes P F a b"
  shows "rel_option (rel_sum (=) (resumes P F)) (search_loop fuel a) (search_loop fuel b)"
  using assms
proof (induction fuel arbitrary: a b)
  case 0
  then have "loop_cond b = loop_cond a"
    by (simp add: loop_cond_def resumes_def)
  with 0 show ?case by simp
next
  case (Suc fuel)
  then have lc: "loop_cond b = loop_cond a"
    by (simp add: loop_cond_def resumes_def)
  have st: "rel_sum (=) (resumes P F) (search_step a) (search_step b)"
    using Suc.prems by (rule resumes_search_step)
  show ?case
  proof (cases "loop_cond a")
    case False
    with lc Suc.prems show ?thesis by simp
  next
    case True
    show ?thesis
    proof (cases "search_step a")
      case (Inl e)
      with st have "search_step b = Inl e"
        by (cases "search_step b") auto
      with Inl True lc show ?thesis by simp
    next
      case (Inr a')
      with st obtain b' where b': "search_step b = Inr b'" "resumes P F a' b'"
        by (cases "search_step b") auto
      with Inr True lc Suc.IH [OF b'(2)] show ?thesis by simp
    qed
  qed
qed

lemma pred_and_then:
  assumes "\<And>x. m = Inr x \<Longrightarrow> pred_sum (\<lambda>e. True) B (f x)"
  shows "pred_sum (\<lambda>e. True) B (and_then m f)"
  using assms by (cases m) (simp_all add: and_then_def)

lemma pred_and_then2:
  assumes "pred_sum (\<lambda>e. True) C m" and "\<And>x. C x \<Longrightarrow> pred_sum (\<lambda>e. True) B (f x)"
  shows "pred_sum (\<lambda>e. True) B (and_then m f)"
  using assms by (cases m) (simp_all add: and_then_def)

lemma pred_if:
  assumes "c \<Longrightarrow> pred_sum A B x" and "\<not> c \<Longrightarrow> pred_sum A B y"
  shows "pred_sum A B (if c then x else y)"
  using assms by simp

lemma pred_case_option:
  assumes "x = None \<Longrightarrow> pred_sum A B a" and "\<And>y. x = Some y \<Longrightarrow> pred_sum A B (b y)"
  shows "pred_sum A B (case x of None \<Rightarrow> a | Some y \<Rightarrow> b y)"
  using assms by (cases x) simp_all

lemma pred_case_prod:
  assumes "\<And>u v. x = (u, v) \<Longrightarrow> pred_sum A B (f u v)"
  shows "pred_sum A B (case x of (u, v) \<Rightarrow> f u v)"
  using assms by (cases x) simp

lemma same_setup_refl [simp]: "same_setup s s"
  by (simp add: same_setup_def)

lemma same_setup_trans: "same_setup a b \<Longrightarrow> same_setup b c \<Longrightarrow> same_setup a c"
  by (simp add: same_setup_def)

lemma same_setup_update [simp]:
  "same_setup s (s'\<lparr>glbMatrix := m\<rparr>) \<longleftrightarrow> same_setup s s'"
  "same_setup s (s'\<lparr>glbCntSearch := c\<rparr>) \<longleftrightarrow> same_setup s s'"
  "same_setup s (s'\<lparr>printed := ps\<rparr>) \<longleftrightarrow> same_setup s s'"
  "same_setup s (s'\<lparr>found := fnd\<rparr>) \<longleftrightarrow> same_setup s s'"
  "same_setup s (s'\<lparr>iteration := i\<rparr>) \<longleftrightarrow> same_setup s s'"
  "same_setup s (s'\<lparr>disk := d\<rparr>) \<longleftrightarrow> same_setup s s'"
  by (simp_all add: same_setup_def)

lemma keeps_iterate_field:
  "pred_sum (\<lambda>e. True) (same_setup s) (iterate_field s f st)"
  unfolding iterate_field_def Let_def
  by (intro pred_and_then pred_if) simp_all

lemma keeps_calc_field:
  "pred_sum (\<lambda>e. True) (\<lambda>x. same_setup s (snd x)) (calc_field s f c)"
  unfolding calc_field_def Let_def
  by (intro pred_and_then pred_if pred_case_option) simp_all

lemma keeps_parkerPrintMatrix:
  "pred_sum (\<lambda>e. True) (\<lambda>x. same_setup s (snd x)) (parkerPrintMatrix s)"
  unfolding parkerPrintMatrix_def Let_def
  by (intro pred_and_then pred_if) simp_all

lemma keeps_after_fill:
  assumes "same_setup s0 s"
  shows "pred_sum (\<lambda>e. True) (same_setup s0) (after_fill s)"
proof -
  have pr: "pred_sum (\<lambda>e. True) (\<lambda>x. same_setup s0 (snd x)) (parkerPrintMatrix s)"
    using keeps_parkerPrintMatrix [of s] assms
    by (cases "parkerPrintMatrix s") (auto intro: same_setup_trans)
  show ?thesis
    unfolding after_fill_def
    by (intro pred_if pred_and_then2 [OF pr] pred_case_prod) (simp_all add: assms)
qed

lemma keeps_checkpoint_tick: "same_setup s (checkpoint_tick s)"
  by (simp add: checkpoint_tick_def parkerStateSave_def Let_def split: option.splits)

lemma keeps_step_body:
  "pred_sum (\<lambda>e. True) (same_setup s) (step_body s)"
  unfolding step_body_def
  by (intro pred_and_then pred_case_option pred_if keeps_iterate_field
        pred_and_then2 [OF keeps_calc_field] pred_case_prod keeps_after_fill)
     simp_all

lemma keeps_search_step:
  assumes "search_step s = Inr s'"
  shows "same_setup s s'"
proof -
  have "pred_sum (\<lambda>e. True) (same_setup (checkpoint_tick s)) (step_body (checkpoint_tick s))"
    by (rule keeps_step_body)
  with assms have "same_setup (checkpoint_tick s) s'"
    by (simp add: search_step_def)
  with keeps_checkpoint_tick show ?thesis
    by (rule same_setup_trans)
qed

lemma search_steps_same_setup:
  "search_steps n s0 = Some s \<Longrightarrow> same_setup s0 s"
proof (induction n arbitrary: s0)
  case 0
  then show ?case by simp
next
  case (Suc n)
  then obtain s1 where s1: "search_step s0 = Inr s1" "search_steps n s1 = Some s"
    by (auto split: if_splits sum.splits)
  from s1(1) have "same_setup s0 s1" by (rule keeps_search_step)
  moreover from s1(2) have "same_setup s1 s" by (rule Suc.IH)
  ultimately show ?case by (rule same_setup_trans)
qed

lemma parkerInit_disk:
  "parkerInit cfg = Inr e \<Longrightarrow> parkerInit (cfg\<lparr>on_disk := d\<rparr>) = Inr (e\<lparr>disk := d\<rparr>)"
  by (auto simp: parkerInit_def and_then_eq_Inr_iff case_prod_beta)

lemma search_bounds_disk:
  "search_bounds (e\<lparr>disk := d\<rparr>) = (search_bounds e)\<lparr>disk := d\<rparr>"
  by (simp add: search_bounds_def)

lemma parkerStateRead_same_setup:
  "parkerStateRead b = Inr s \<Longrightarrow> same_setup b s"
  by (auto simp: parkerStateRead_def split: option.splits state_file.splits)

lemma search_begin_Ready:
  assumes "search_begin e = Some (Inr (Ready s0))"
  shows "glbMagicNumber e mod 3 = 0"
    and "(if glbPower e = 2 then ParkerThreeSquareCheck (glbMagicNumber e) else Some True)
           = Some True"
    and "parkerStateRead ((search_bounds e)\<lparr>found := False,
            glbCntSearch := checkSearch (search_bounds e) + 1, iteration := 0\<rparr>) = Inr s0"
  using assms
  by (auto simp: search_begin_def Let_def search_bounds_fields
           split: if_splits option.splits bool.splits sum.splits)

lemma resume_start:
  assumes enabled: "cfg_state cfg"
    and init: "parkerInit cfg = Inr e"
    and begun: "search_begin e = Some (Inr (Ready s0))"
    and agree: "same_setup s0 s"
  shows "\<exists>r0. search_begin (e\<lparr>disk := disk (parkerStateSave s)\<rparr>) = Some (Inr (Ready r0))
              \<and> resumes (printed s) (found s) s r0"
proof -
  define base where "base = (search_bounds e)\<lparr>found := False,
            glbCntSearch := checkSearch (search_bounds e) + 1, iteration := 0\<rparr>"
  note ready = search_begin_Ready [OF begun]
  from ready(3) have read: "parkerStateRead base = Inr s0"
    by (simp add: base_def)
  then have b0: "same_setup base s0"
    by (rule parkerStateRead_same_setup)
  from b0 agree have bs: "same_setup base s"
    by (rule same_setup_trans)
  obtain name where "glbStateFile e = Some name"
    using parkerInit_fields(3) [OF init] enabled by simp
  then have "glbStateFile base = Some name"
    by (simp add: base_def search_bounds_fields)
  with bs have named: "glbStateFile s = Some name"
    by (simp add: same_setup_def)
  define D where "D = disk (parkerStateSave s)"
  have D: "D = Parsed (Some (glbCntSearch s)) (Some (glbMatrix s))"
    by (simp add: D_def parkerStateSave_def named)
  define r0 where "r0 = base\<lparr>disk := D, glbCntSearch := glbCntSearch s,
                                glbMatrix := glbMatrix s\<rparr>"
  have read': "parkerStateRead (base\<lparr>disk := D\<rparr>) = Inr r0"
    using \<open>glbStateFile base = Some name\<close>
    by (simp add: parkerStateRead_def D r0_def)
  have base': "(search_bounds (e\<lparr>disk := D\<rparr>))\<lparr>found := False,
            glbCntSearch := checkSearch (search_bounds (e\<lparr>disk := D\<rparr>)) + 1, iteration := 0\<rparr>
          = base\<lparr>disk := D\<rparr>"
    by (simp add: base_def search_bounds_disk)
  have three: "(if glbPower (search_bounds (e\<lparr>disk := D\<rparr>)) = 2
                then ParkerThreeSquareCheck (glbMagicNumber (search_bounds (e\<lparr>disk := D\<rparr>)))
                else Some True) = Some True"
    using ready(2) by (simp add: search_bounds_fields search_bounds_disk split: if_splits)
  have "search_begin (e\<lparr>disk := D\<rparr>) = Some (Inr (Ready r0))"
    unfolding search_begin_def Let_def three base' read'
    using ready(1) by simp
  moreover have "printed base = []"
    using parkerInit_fields(5) [OF init] by (simp add: base_def search_bounds_fields)
  then have "resumes (printed s) (found s) s r0"
    using bs by (simp add: resumes_def same_setup_def r0_def base_def)
  ultimately show ?thesis
    unfolding D_def by blast
qed

lemma round_trip:
  assumes enabled: "cfg_state cfg"
    and init: "parkerInit cfg = Inr e"
    and begun: "search_begin e = Some (Inr (Ready s0))"
    and reach: "search_steps n s0 = Some s"
  shows "rel_option
           (rel_sum (=)
              (\<lambda>s' (fnd, r'). fnd = found r' \<and> glbMatrix s' = glbMatrix r'
                  \<and> glbCntSearch s' = glbCntSearch r'
                  \<and> printed s' = printed s @ printed r'
                  \<and> (found s' \<longleftrightarrow> found s \<or> found r')))
           (search_loop fuel s)
           (ParkerSquare fuel (cfg\<lparr>on_disk := disk (parkerStateSave s)\<rparr>))"
proof -
  from reach have "same_setup s0 s"
    by (rule search_steps_same_setup)
  from resume_start [OF enabled init begun this]
  obtain r0 where r0: "search_begin (e\<lparr>disk := disk (parkerStateSave s)\<rparr>)
                         = Some (Inr (Ready r0))"
    "resumes (printed s) (found s) s r0"
    by blast
  have loop: "rel_option (rel_sum (=) (resumes (printed s) (found s)))
                (search_loop fuel s) (search_loop fuel r0)"
    using r0(2) by (rule resumes_search_loop)
  have run: "ParkerSquare fuel (cfg\<lparr>on_disk := disk (parkerStateSave s)\<rparr>)
      = (case search_loop fuel r0 of
           None \<Rightarrow> None
         | Some (Inl e) \<Rightarrow> Some (Inl e)
         | Some (Inr s') \<Rightarrow>
             Some (Inr (found s',
                        (case glbStateFile s' of
                           None \<Rightarrow> s'
                         | Some _ \<Rightarrow> s'\<lparr>disk := Missing\<rparr>))))"
    by (simp add: ParkerSquare_def parkerInit_disk [OF init] parkerSearch_def r0(1))
  show ?thesis
  proof (cases "search_loop fuel s")
    case None
    with loop have "search_loop fuel r0 = None" by simp
    with None run show ?thesis by simp
  next
    case (Some x)
    with loop obtain y where y: "search_loop fuel r0 = Some y"
      "rel_sum (=) (resumes (printed s) (found s)) x y"
      by (cases "search_loop fuel r0") auto
    show ?thesis
    proof (cases x)
      case (Inl err)
      with y(2) have "y = Inl err" by (cases y) auto
      with Some Inl y(1) run show ?thesis by simp
    next
      case (Inr s')
      with y(2) obtain r' where r': "y = Inr r'" "resumes (printed s) (found s) s' r'"
        by (cases y) auto
      with Some Inr y(1) run show ?thesis
        by (auto simp: resumes_def split: option.splits)
    qed
  qed
qed

lemma reached_Some:
  assumes "reached n cfg = Some s"
  obtains e s0 where "parkerInit cfg = Inr e" "search_begin e = Some (Inr (Ready s0))"
    "search_steps n s0 = Some s"
  using assms
  by (auto simp: reached_def split: sum.splits option.splits search_start.splits)

lemma example_checkpoint:
  "map_option (\<lambda>s. (glbCntSearch s, glbMatrix s, glbStateFile s, found s, printed s))
     (reached 5 example_config)
   = Some (7, [0, 1, 12, 2, 0, 5, 4, 0, 0, 9], Some ''state_<magic>.txt'', False, [])"
  by code_simp

lemma example_resumed:
  "map_option (map_sum id (\<lambda>(fnd, r). (fnd, glbCntSearch r, glbMatrix r, printed r)))
     (ParkerSquare 39
        (example_config\<lparr>on_disk := Parsed (Some 7) (Some [0, 1, 12, 2, 0, 5, 4, 0, 0, 9])\<rparr>))
   = Some (Inr (True, 10, [0, 2, 9, 4, 7, 5, 3, 6, 1, 8],
                [Printout 10 [0, 2, 9, 4, 7, 5, 3, 6, 1, 8]
                   [15, 15, 15, 15, 15, 15, 15, 15] True]))"
  by code_simp


text \<open>
  Claim C8. Let the state file be switched on and let \<open>s\<close> be a state that a run on the
  configuration \<open>cfg\<close> has reached at the head of the loop. Saving the checkpoint of \<open>s\<close> and
  starting \<^verbatim>\<open>ParkerSquare\<close> afresh on the same configuration with this state file behaves, round
  for round, as the loop continued from \<open>s\<close>: with the same fuel both run out, both raise the
  same exception, or both end, and then with the same grid and cursor, and the uninterrupted
  run has printed what it had printed at \<open>s\<close> followed by exactly what the resumed run has
  printed. The resumed run starts with \<^verbatim>\<open>found = False\<close>, so its result reports the solutions
  found after the checkpoint: the uninterrupted run has found one exactly if it had at \<open>s\<close> or
  the resumed run has.
\<close>

theorem checkpoint_round_trip:
  assumes "cfg_state cfg" and "reached n cfg = Some s"
  shows "rel_option
           (rel_sum (=)
              (\<lambda>s' (fnd, r'). fnd = found r' \<and> glbMatrix s' = glbMatrix r'
                  \<and> glbCntSearch s' = glbCntSearch r'
                  \<and> printed s' = printed s @ printed r'
                  \<and> (found s' \<longleftrightarrow> found s \<or> found r')))
           (search_loop fuel s)
           (ParkerSquare fuel (cfg\<lparr>on_disk := disk (parkerStateSave s)\<rparr>))"
proof -
  from assms(2) obtain e s0 where "parkerInit cfg = Inr e"
    "search_begin e = Some (Inr (Ready s0))" "search_steps n s0 = Some s"
    by (rule reached_Some)
  with assms(1) show ?thesis
    by (rule round_trip)
qed

theorem checkpoint_round_trip_witness:
  "cfg_state example_config
   \<and> (\<exists>s s'. reached 5 example_config = Some s
         \<and> disk (parkerStateSave s) = Parsed (Some 7) (Some [0, 1, 12, 2, 0, 5, 4, 0, 0, 9])
         \<and> search_loop 39 s = Some (Inr s')
         \<and> glbCntSearch s' = 10 \<and> glbMatrix s' = [0, 2, 9, 4, 7, 5, 3, 6, 1, 8]
         \<and> printed s' = [Printout 10 [0, 2, 9, 4, 7, 5, 3, 6, 1, 8]
                            [15, 15, 15, 15, 15, 15, 15, 15] True]
         \<and> found s')"
proof -
  have on: "cfg_state example_config"
    by (simp add: example_config_def)
  from example_checkpoint obtain s where s: "reached 5 example_config = Some s"
    "glbCntSearch s = 7" "glbMatrix s = [0, 1, 12, 2, 0, 5, 4, 0, 0, 9]"
    "glbStateFile s = Some ''state_<magic>.txt''" "\<not> found s" "printed s = []"
    by (cases "reached 5 example_config") auto
  have saved: "disk (parkerStateSave s) = Parsed (Some 7) (Some [0, 1, 12, 2, 0, 5, 4, 0, 0, 9])"
    by (simp add: parkerStateSave_def s)
  from example_resumed obtain x where x:
    "ParkerSquare 39
        (example_config\<lparr>on_disk := Parsed (Some 7) (Some [0, 1, 12, 2, 0, 5, 4, 0, 0, 9])\<rparr>)
       = Some x"
    "map_sum id (\<lambda>(fnd, r). (fnd, glbCntSearch r, glbMatrix r, printed r)) x
       = Inr (True, 10, [0, 2, 9, 4, 7, 5, 3, 6, 1, 8],
              [Printout 10 [0, 2, 9, 4, 7, 5, 3, 6, 1, 8]
                 [15, 15, 15, 15, 15, 15, 15, 15] True])"
    by (cases "ParkerSquare 39
        (example_config\<lparr>on_disk := Parsed (Some 7) (Some [0, 1, 12, 2, 0, 5, 4, 0, 0, 9])\<rparr>)")
       simp_all
  from x(2) obtain fnd r where fr: "x = Inr (fnd, r)"
    by (cases x) auto
  with x have r:
    "ParkerSquare 39
        (example_config\<lparr>on_disk := Parsed (Some 7) (Some [0, 1, 12, 2, 0, 5, 4, 0, 0, 9])\<rparr>)
       = Some (Inr (fnd, r))"
    "fnd" "glbCntSearch r = 10" "glbMatrix r = [0, 2, 9, 4, 7, 5, 3, 6, 1, 8]"
    "printed r = [Printout 10 [0, 2, 9, 4, 7, 5, 3, 6, 1, 8]
                    [15, 15, 15, 15, 15, 15, 15, 15] True]"
    by simp_all
  from checkpoint_round_trip [OF on s(1), of 39] obtain s' where
    "search_loop 39 s = Some (Inr s')" "fnd = found r" "glbMatrix s' = glbMatrix r"
    "glbCntSearch s' = glbCntSearch r" "printed s' = printed s @ printed r"
    "found s' \<longleftrightarrow> found s \<or> found r"
    unfolding saved r(1)
    by (cases "search_loop 39 s")
       (auto simp: rel_sum.simps)
  with on s saved r show ?thesis
    by auto
qed

end
